theory Spec2Isabelle
  imports Complex_Main
begin

section \<open>The peak editor of peakdet (\<^verbatim>\<open>src/peakdet/editor.py\<close>)\<close>

text \<open>
  The class \<^verbatim>\<open>_PhysioEditor\<close> edits the peak markers of a physiological signal: a span
  selection rejects, deletes or inserts peaks (\<^verbatim>\<open>on_edit\<close>) and \<^verbatim>\<open>undo\<close> reverses the
  last edit recorded in the history of the signal object.  The methods mutate the
  editor and the signal object in place; here each method takes the editor state and
  returns an outcome together with the state it leaves behind, also when it raises.
  Sample values and times are floats in the source; only their order is used, so they
  are reals here (no NaN).  Sample indices are natural numbers.
\<close>

subsection \<open>Exceptions and outcomes\<close>

text \<open>
  The Python exceptions the editor can meet, and \<open>OperationError\<close> for the failure of
  an operation of \<^verbatim>\<open>peakdet.operations\<close> that is called outside its contract (the spec
  does not name the exception).
\<close>

datatype error = ValueError | IndexError | KeyError | OperationError

text \<open>
  What a call did: it ended in \<^verbatim>\<open>plot_signals()\<close> (a redraw), it returned without
  redrawing, or it raised.  Drawing itself belongs to matplotlib and is not modelled.
\<close>

datatype outcome = Redrawn | Returned | Raised error

subsection \<open>The numpy operations the editor calls\<close>

text \<open>
  \<^verbatim>\<open>np.searchsorted(a, v)\<close> (side left) on a sorted array: the leftmost insertion point
  of \<open>v\<close>, the number of leading elements below \<open>v\<close>.  numpy promises this result for
  sorted \<open>a\<close> only, so the theorems below that depend on the value assume sortedness.
\<close>

definition searchsorted :: "'a::linorder list \<Rightarrow> 'a \<Rightarrow> nat" where
  "searchsorted a v = length (takeWhile (\<lambda>x. x < v) a)"

text \<open>\<^verbatim>\<open>xs[i:j]\<close> for non-negative \<open>i\<close>, \<open>j\<close>: clipped to the array, empty when \<open>j \<le> i\<close>.\<close>

definition slice :: "'a list \<Rightarrow> nat \<Rightarrow> nat \<Rightarrow> 'a list" where
  "slice xs i j = take (j - i) (drop i xs)"

text \<open>
  \<^verbatim>\<open>np.argmax\<close>: the index of the first occurrence of the maximum; it raises
  \<^verbatim>\<open>ValueError\<close> on an empty array.
\<close>

fun first_max :: "'a::linorder \<Rightarrow> nat \<Rightarrow> nat \<Rightarrow> 'a list \<Rightarrow> nat" where
  "first_max best bi i [] = bi"
| "first_max best bi i (x # xs) =
     (if best < x then first_max x i (Suc i) xs else first_max best bi (Suc i) xs)"

definition argmax :: "'a::linorder list \<Rightarrow> error + nat" where
  "argmax xs = (case xs of [] \<Rightarrow> Inl ValueError | x # rest \<Rightarrow> Inr (first_max x 0 1 rest))"

text \<open>\<^verbatim>\<open>np.setdiff1d(a, b)\<close>: the sorted, unique values of \<open>a\<close> that are not in \<open>b\<close>.\<close>

definition setdiff1d :: "nat list \<Rightarrow> nat list \<Rightarrow> nat list" where
  "setdiff1d a b = sort (remdups (filter (\<lambda>x. x \<notin> set b) a))"

text \<open>
  \<^verbatim>\<open>np.insert(arr, obj, values)\<close> with an array of indices: \<open>values[j]\<close> is placed before
  the element that has index \<open>obj[j]\<close> in the original array, values with the same index
  in their given order.  An index beyond the length raises \<^verbatim>\<open>IndexError\<close>.
\<close>

fun insert_from :: "nat \<Rightarrow> 'a list \<Rightarrow> (nat \<times> 'a) list \<Rightarrow> 'a list" where
  "insert_from i [] ivs = map snd (filter (\<lambda>iv. fst iv = i) ivs)"
| "insert_from i (x # xs) ivs =
     map snd (filter (\<lambda>iv. fst iv = i) ivs) @ x # insert_from (Suc i) xs ivs"

definition np_insert :: "'a list \<Rightarrow> nat list \<Rightarrow> 'a list \<Rightarrow> error + 'a list" where
  "np_insert arr obj vals =
     (if list_ex (\<lambda>i. length arr < i) obj then Inl IndexError
      else Inr (insert_from 0 arr (zip obj vals)))"

text \<open>\<^verbatim>\<open>np.delete(arr, i)\<close> with one index: \<^verbatim>\<open>IndexError\<close> when \<open>i\<close> is out of bounds.\<close>

definition np_delete :: "'a list \<Rightarrow> nat \<Rightarrow> error + 'a list" where
  "np_delete arr i =
     (if length arr \<le> i then Inl IndexError else Inr (take i arr @ drop (Suc i) arr))"

subsection \<open>The signal object\<close>

text \<open>
  A history entry is the pair \<^verbatim>\<open>(func, kwargs)\<close> of an operation's name and its
  arguments: \<^verbatim>\<open>{'remove': [...]}\<close> for a rejection or deletion, \<^verbatim>\<open>{'add': i}\<close> for an
  insertion, anything else for the other operations.  Reading a key that the
  dictionary does not have raises \<^verbatim>\<open>KeyError\<close>.
\<close>

datatype kwargs = Remove "nat list" | Add nat | Other

type_synonym entry = "string \<times> kwargs"

text \<open>
  Modelled from the spec: the class \<^verbatim>\<open>Physio\<close> (module \<^verbatim>\<open>peakdet.physio\<close>) is not among
  the sources.  The editor reads and writes its fields \<^verbatim>\<open>data\<close> (here \<open>signal\<close>), \<^verbatim>\<open>fs\<close>,
  \<^verbatim>\<open>_history\<close> and \<^verbatim>\<open>_metadata['peaks' | 'troughs' | 'reject']\<close>.
\<close>

record physio =
  signal :: "real list"
  fs :: "real option"
  history :: "entry list"
  meta_peaks :: "nat list"
  meta_troughs :: "nat list"
  meta_reject :: "nat list"

text \<open>
  Modelled from the spec: the property \<^verbatim>\<open>Physio.peaks\<close>.  A rejected peak is excluded by
  soft tracking (glossary; scenario A: rejecting 5 and 8 of the peaks 2, 5, 8 leaves
  the peaks 2), so the peaks are the peak metadata without the rejected indices.
\<close>

definition peaks :: "physio \<Rightarrow> nat list" where
  "peaks d = filter (\<lambda>p. p \<notin> set (meta_reject d)) (meta_peaks d)"

definition troughs :: "physio \<Rightarrow> nat list" where
  "troughs d = meta_troughs d"

text \<open>
  Modelled from the spec: \<^verbatim>\<open>utils.check_troughs\<close> is not among the sources.  The spec
  (section 3) makes the troughs a pure function of the signal and the peaks, so the
  recomputation is a parameter \<open>ct\<close> of this type in everything below.
\<close>

type_synonym trough_fn = "real list \<Rightarrow> nat list \<Rightarrow> nat list"

text \<open>
  Modelled from the spec: an instance of the trough recomputation for concrete
  evaluations, the first minimum of the signal between two neighbouring peaks
  (glossary: a trough marks a local minimum, derived from peaks and signal).
\<close>

fun first_min :: "'a::linorder \<Rightarrow> nat \<Rightarrow> nat \<Rightarrow> 'a list \<Rightarrow> nat" where
  "first_min best bi i [] = bi"
| "first_min best bi i (x # xs) =
     (if x < best then first_min x i (Suc i) xs else first_min best bi (Suc i) xs)"

fun check_troughs :: trough_fn where
  "check_troughs sig (p # q # ps) =
     (case slice sig p q of
        [] \<Rightarrow> check_troughs sig (q # ps)
      | x # rest \<Rightarrow> (p + first_min x 0 1 rest) # check_troughs sig (q # ps))"
| "check_troughs sig ps = []"

text \<open>
  Modelled from the spec: the operations \<^verbatim>\<open>reject_peaks\<close>, \<^verbatim>\<open>delete_peaks\<close> and
  \<^verbatim>\<open>add_peaks\<close> of \<^verbatim>\<open>peakdet.operations\<close> (the spec's Marker Mutation Service, section
  4.4) are not among the sources.  Each returns a new state whose metadata reflect the
  mutation, with recomputed troughs and exactly one new trailing history record whose
  payload is what \<^verbatim>\<open>undo\<close> reverses: a rejection adds the indices to the reject
  metadata, a deletion removes them from the peak metadata, an insertion puts the index
  at its sorted insertion point of the peak metadata.  The editor calls the first two
  with a non-empty list of current peaks only, as their contract asks.
\<close>

definition reject_peaks :: "trough_fn \<Rightarrow> physio \<Rightarrow> nat list \<Rightarrow> physio" where
  "reject_peaks ct d rem =
     (let d1 = d\<lparr>meta_reject := meta_reject d @ rem\<rparr>
      in d1\<lparr>meta_troughs := ct (signal d1) (peaks d1),
            history := history d1 @ [(''reject_peaks'', Remove rem)]\<rparr>)"

definition delete_peaks :: "trough_fn \<Rightarrow> physio \<Rightarrow> nat list \<Rightarrow> physio" where
  "delete_peaks ct d rem =
     (let d1 = d\<lparr>meta_peaks := setdiff1d (meta_peaks d) rem\<rparr>
      in d1\<lparr>meta_troughs := ct (signal d1) (peaks d1),
            history := history d1 @ [(''delete_peaks'', Remove rem)]\<rparr>)"

text \<open>
  Modelled from the spec: \<^verbatim>\<open>add_peaks\<close> takes an index that must be absent from the
  current peaks sequence (section 4.4; the peaks sequence has no duplicates, section
  3) and fails otherwise.
\<close>

definition add_peaks :: "trough_fn \<Rightarrow> physio \<Rightarrow> nat \<Rightarrow> error + physio" where
  "add_peaks ct d p =
     (if p \<in> set (peaks d) then Inl OperationError
      else
        (let i = searchsorted (meta_peaks d) p;
             d1 = d\<lparr>meta_peaks := take i (meta_peaks d) @ p # drop i (meta_peaks d)\<rparr>
         in Inr (d1\<lparr>meta_troughs := ct (signal d1) (peaks d1),
                     history := history d1 @ [(''add_peaks'', Add p)]\<rparr>)))"

subsection \<open>The editor\<close>

record editor =
  data :: physio
  time :: "real list"
  deleted :: "nat set"
  rejected :: "nat set"
  included :: "nat set"

text \<open>
  \<^verbatim>\<open>__init__\<close>: a copy of the data, the time axis and three empty category sets.  The
  time axis is \<^verbatim>\<open>np.arange(0, len(data.data) / fs, 1 / fs)\<close>, whose length and values
  numpy computes in floating point; it is a parameter here, so that nothing below
  depends on how many points it has.  The figure, the selectors and the first drawing
  are matplotlib's.
\<close>

definition init :: "physio \<Rightarrow> real list \<Rightarrow> editor" where
  "init d t = \<lparr>data = d, time = t, deleted = {}, rejected = {}, included = {}\<rparr>"

text \<open>
  Lines 106 and 107 of \<^verbatim>\<open>on_edit\<close>, the selection mapping: the insertion points of the
  selection in the time axis, and the insertion points of these in the peaks.
\<close>

definition map_selection :: "editor \<Rightarrow> real \<Rightarrow> real \<Rightarrow> (nat \<times> nat) \<times> (nat \<times> nat)" where
  "map_selection e xmin xmax =
     (let tmin = searchsorted (time e) xmin;
          tmax = searchsorted (time e) xmax;
          pmin = searchsorted (peaks (data e)) tmin;
          pmax = searchsorted (peaks (data e)) tmax
      in ((tmin, tmax), (pmin, pmax)))"

text \<open>
  \<^verbatim>\<open>on_edit(xmin, xmax, reject, insert)\<close>.  The three selectors call it with
  \<open>reject = True\<close> (rejection), with both flags false (deletion) and with
  \<open>insert = True\<close> (insertion).  An insertion adds the index to \<open>included\<close> before it
  calls \<^verbatim>\<open>add_peaks\<close>, so the index stays there when the operation fails.
\<close>

definition on_edit ::
  "trough_fn \<Rightarrow> editor \<Rightarrow> real \<Rightarrow> real \<Rightarrow> bool \<Rightarrow> bool \<Rightarrow> outcome \<times> editor" where
  "on_edit ct e xmin xmax reject ins =
     (if reject \<and> ins then (Raised ValueError, e)
      else
        (case map_selection e xmin xmax of ((tmin, tmax), (pmin, pmax)) \<Rightarrow>
          if ins then
            (case (if tmin \<noteq> tmax then argmax (slice (signal (data e)) tmin tmax) else Inr 0) of
               Inl err \<Rightarrow> (Raised err, e)
             | Inr tmp \<Rightarrow>
                 (let newpeak = tmin + tmp in
                  if newpeak = tmin then (Redrawn, e)
                  else
                    (let e1 = e\<lparr>included := insert newpeak (included e)\<rparr> in
                     case add_peaks ct (data e1) newpeak of
                       Inl err \<Rightarrow> (Raised err, e1)
                     | Inr d \<Rightarrow> (Redrawn, e1\<lparr>data := d\<rparr>))))
          else
            (let bad = [pmin..<pmax] in
             if length bad = 0 then (Redrawn, e)
             else
               (let sel = map (\<lambda>i. peaks (data e) ! i) bad in
                if reject then
                  (Redrawn, e\<lparr>rejected := rejected e \<union> set sel,
                              data := reject_peaks ct (data e) sel\<rparr>)
                else
                  (Redrawn, e\<lparr>deleted := deleted e \<union> set sel,
                              data := delete_peaks ct (data e) sel\<rparr>)))))"

text \<open>
  \<^verbatim>\<open>undo()\<close>.  \<^verbatim>\<open>self.data._history[-1]\<close> raises \<^verbatim>\<open>IndexError\<close> on an empty history.  The
  record is popped before it is reversed, and every later statement works on the
  object as mutated so far: the state returned with \<open>Raised\<close> is the one the exception
  leaves behind.  The troughs are recomputed last.
\<close>

definition relevant :: "string list" where
  "relevant = [''reject_peaks'', ''delete_peaks'', ''add_peaks'']"

definition retrough :: "trough_fn \<Rightarrow> editor \<Rightarrow> outcome \<times> editor" where
  "retrough ct e =
     (Redrawn, e\<lparr>data := (data e)\<lparr>meta_troughs := ct (signal (data e)) (peaks (data e))\<rparr>\<rparr>)"

definition undo :: "trough_fn \<Rightarrow> editor \<Rightarrow> outcome \<times> editor" where
  "undo ct e =
     (if history (data e) = [] then (Raised IndexError, e)
      else
        (case last (history (data e)) of (func, args) \<Rightarrow>
          if func \<notin> set relevant then (Returned, e)
          else
            (let e1 = e\<lparr>data := (data e)\<lparr>history := butlast (history (data e))\<rparr>\<rparr> in
             if func = ''reject_peaks'' then
               (case args of
                  Remove rem \<Rightarrow>
                    retrough ct
                      (e1\<lparr>data := (data e1)\<lparr>meta_reject := setdiff1d (meta_reject (data e1)) rem\<rparr>,
                          rejected := rejected e1 - set rem\<rparr>)
                | _ \<Rightarrow> (Raised KeyError, e1))
             else if func = ''delete_peaks'' then
               (case args of
                  Remove rem \<Rightarrow>
                    (case np_insert (meta_peaks (data e1))
                            (map (searchsorted (meta_peaks (data e1))) rem) rem of
                       Inl err \<Rightarrow> (Raised err, e1)
                     | Inr ps \<Rightarrow>
                         retrough ct
                           (e1\<lparr>data := (data e1)\<lparr>meta_peaks := ps\<rparr>,
                               deleted := deleted e1 - set rem\<rparr>))
                | _ \<Rightarrow> (Raised KeyError, e1))
             else
               (case args of
                  Add p \<Rightarrow>
                    (case np_delete (meta_peaks (data e1))
                            (searchsorted (meta_peaks (data e1)) p) of
                       Inl err \<Rightarrow> (Raised err, e1)
                     | Inr ps \<Rightarrow>
                         (let e2 = e1\<lparr>data := (data e1)\<lparr>meta_peaks := ps\<rparr>\<rparr> in
                          if p \<notin> included e2 then (Raised KeyError, e2)
                          else retrough ct (e2\<lparr>included := included e2 - {p}\<rparr>)))
                | _ \<Rightarrow> (Raised KeyError, e1)))))"

subsection \<open>Sequences of calls\<close>

text \<open>One span selection, with the flags of the selector that reported it.\<close>

datatype selection = Select real real bool bool

text \<open>\<open>n\<close> calls of \<^verbatim>\<open>undo()\<close> in a row, each on the state the one before left behind.\<close>

definition undos :: "trough_fn \<Rightarrow> nat \<Rightarrow> editor \<Rightarrow> editor" where
  "undos ct n = (\<lambda>e. snd (undo ct e)) ^^ n"

text \<open>
  The events of a session, \<^verbatim>\<open>on_key\<close> with the undo key and the span selectors.  An
  exception raised by a handler is reported by the event loop, and the next event
  finds the state the handler left behind.
\<close>

datatype event = Span selection | UndoKey

fun handle :: "trough_fn \<Rightarrow> editor \<Rightarrow> event \<Rightarrow> editor" where
  "handle ct e (Span (Select xmin xmax reject ins)) = snd (on_edit ct e xmin xmax reject ins)"
| "handle ct e UndoKey = snd (undo ct e)"




subsection \<open>A concrete session\<close>

text \<open>
  Ten samples at \<open>fs = 1\<close> with the peaks 2, 5, 8 (scenario A of the spec) and a signal
  whose maximum over the samples 6, 7, 8 is at sample 7 (scenario D), without history;
  the editor constructed on it; and the editor constructed on the same data after an
  earlier \<^verbatim>\<open>add_peaks\<close> of sample 7.
\<close>

definition example_physio :: physio where
  "example_physio =
     \<lparr>signal = [0, 1, 5, 1, 0, 6, 1, 9, 4, 1], fs = None, history = [],
      meta_peaks = [2, 5, 8], meta_troughs = [4, 6], meta_reject = []\<rparr>"

definition example_editor :: editor where
  "example_editor =
     \<lparr>data = example_physio, time = [0, 1, 2, 3, 4, 5, 6, 7, 8, 9],
      deleted = {}, rejected = {}, included = {}\<rparr>"

definition second_session :: editor where
  "second_session =
     (case add_peaks check_troughs example_physio 7 of
        Inr d \<Rightarrow> example_editor\<lparr>data := d\<rparr>
      | Inl err \<Rightarrow> example_editor)"

text \<open>
  The example session after three edits: the middle-button selection \<open>(6, 9)\<close> inserts
  sample 7, the right-button selection \<open>(6.5, 7.5)\<close> deletes it, and the middle-button
  selection \<open>(6, 9)\<close> inserts it again.
\<close>

definition reinserted :: editor where
  "reinserted =
     foldl (handle check_troughs) example_editor
       [Span (Select 6 9 False True), Span (Select 6.5 7.5 False False),
        Span (Select 6 9 False True)]"

section \<open>Properties\<close>

lemmas example_defs = example_editor_def example_physio_def second_session_def

lemmas eval_defs = on_edit_def map_selection_def searchsorted_def slice_def argmax_def
  peaks_def undo_def retrough_def relevant_def np_insert_def np_delete_def setdiff1d_def
  add_peaks_def reject_peaks_def delete_peaks_def

lemma init_example: "init example_physio [0, 1, 2, 3, 4, 5, 6, 7, 8, 9] = example_editor"
  by (simp add: init_def example_defs)

subsection \<open>The selection mapping\<close>

lemma searchsorted_le: "searchsorted a v \<le> length a"
  by (simp add: searchsorted_def length_takeWhile_le)

lemma searchsorted_mono: "v \<le> w \<Longrightarrow> searchsorted a v \<le> searchsorted a w"
  unfolding searchsorted_def by (induction a) auto

text \<open>
  Claim C3, as the spec states it: for every non-decreasing time axis, every sorted
  peaks sequence and every pair \<open>(tmin, tmax)\<close>, inverted pairs included, the mapping
  returns \<open>0 \<le> tmin_idx \<le> tmax_idx \<le> len(timeAxis)\<close> and \<open>0 \<le> pmin \<le> pmax \<le> len(peaks)\<close>.
  It fails for an inverted pair: the two bounds are looked up one by one and never
  reordered, so on the time axis 0, 1, ..., 9 the selection \<open>(2, 0)\<close> maps to the
  sample indices \<open>(2, 0)\<close>.
\<close>

theorem map_selection_inverted_counterexample:
  "sorted (time example_editor) \<and> sorted (peaks (data example_editor)) \<and>
   map_selection example_editor 2 0 = ((2, 0), (0, 0)) \<and> \<not> (2::nat) \<le> 0"
  by (simp add: eval_defs example_defs)

text \<open>
  Claim C3, amended: for every non-decreasing time axis, every sorted peaks sequence
  and every pair \<open>(tmin, tmax)\<close>, each of the four indices lies within its array
  (\<open>0 \<le> tmin_idx, tmax_idx \<le> len(timeAxis)\<close> and \<open>0 \<le> pmin, pmax \<le> len(peaks)\<close>); when
  \<open>tmin \<le> tmax\<close> also \<open>tmin_idx \<le> tmax_idx\<close> and \<open>pmin \<le> pmax\<close>; for an inverted pair the
  indices are inverted too (\<open>tmax_idx \<le> tmin_idx\<close> and \<open>pmax \<le> pmin\<close>).
\<close>

theorem map_selection_ranges:
  assumes "sorted (time e)" and "sorted (peaks (data e))"
    and "map_selection e xmin xmax = ((tmin, tmax), (pmin, pmax))"
  shows "tmin \<le> length (time e) \<and> tmax \<le> length (time e) \<and>
         pmin \<le> length (peaks (data e)) \<and> pmax \<le> length (peaks (data e)) \<and>
         (xmin \<le> xmax \<longrightarrow> tmin \<le> tmax \<and> pmin \<le> pmax) \<and>
         (xmax \<le> xmin \<longrightarrow> tmax \<le> tmin \<and> pmax \<le> pmin)"
  using assms(3) by (auto simp: map_selection_def Let_def searchsorted_le searchsorted_mono)

theorem map_selection_ranges_witness:
  "sorted (time example_editor) \<and> sorted (peaks (data example_editor)) \<and>
   map_selection example_editor 4.5 8.5 = ((5, 9), (1, 3)) \<and>
   (5::nat) \<le> 9 \<and> 9 \<le> length (time example_editor) \<and>
   (1::nat) \<le> 3 \<and> 3 \<le> length (peaks (data example_editor))"
proof -
  have s: "sorted (time example_editor)" "sorted (peaks (data example_editor))"
    by (simp_all add: example_defs peaks_def)
  have m: "map_selection example_editor 4.5 8.5 = ((5, 9), (1, 3))"
    by (simp add: eval_defs example_defs)
  show ?thesis
    using s m map_selection_ranges [OF s m] by simp
qed

subsection \<open>Edits\<close>

text \<open>
  Claim C5: for every selection, an edit request with both \<open>reject\<close> and \<open>insert\<close> set
  fails with a validation error (\<^verbatim>\<open>ValueError\<close>) before any mutation: the state the
  call leaves behind is the state it was given, so peaks, troughs, category sets and
  history are unchanged.
\<close>

theorem on_edit_reject_and_insert:
  "on_edit ct e xmin xmax True True = (Raised ValueError, e)"
  by (simp add: on_edit_def)

theorem on_edit_reject_and_insert_witness:
  "on_edit check_troughs example_editor 4.5 8.5 True True = (Raised ValueError, example_editor)"
  using on_edit_reject_and_insert [of check_troughs example_editor "4.5" "8.5"] by simp

text \<open>
  Claim C4 says that an empty or inverted range is a redraw-only no-op in every edit
  mode.  The code breaks it for an inverted range in insert mode: the guard
  \<^verbatim>\<open>tmin != tmax\<close> lets the empty slice \<^verbatim>\<open>data[9:6]\<close> reach \<^verbatim>\<open>np.argmax\<close>, which raises
  \<^verbatim>\<open>ValueError\<close>.  Here the selection \<open>(9, 6)\<close> on the example session.
\<close>

theorem on_edit_inverted_insert_raises:
  "map_selection example_editor 9 6 = ((9, 6), (3, 2)) \<and>
   on_edit check_troughs example_editor 9 6 False True = (Raised ValueError, example_editor)"
  by (simp add: eval_defs example_defs)

subsection \<open>Undo\<close>

text \<open>
  Claim C1 says that \<^verbatim>\<open>undo()\<close> on an empty history changes nothing and does not
  raise.  The code reads \<^verbatim>\<open>self.data._history[-1]\<close> first, which raises \<^verbatim>\<open>IndexError\<close> on
  an empty list; the state is left as it was.
\<close>

theorem undo_empty_history_raises:
  "history (data example_editor) = [] \<and>
   undo check_troughs example_editor = (Raised IndexError, example_editor)"
  by (simp add: undo_def example_defs)

subsection \<open>Insertion\<close>

lemma first_max_inv:
  assumes "length pre = i" and "bi < i" and "pre ! bi = best"
    and "\<forall>j<i. pre ! j \<le> best" and "\<forall>j<bi. pre ! j < best"
  shows "first_max best bi i xs < length (pre @ xs) \<and>
         (\<forall>j<length (pre @ xs). (pre @ xs) ! j \<le> (pre @ xs) ! first_max best bi i xs) \<and>
         (\<forall>j<first_max best bi i xs. (pre @ xs) ! j < (pre @ xs) ! first_max best bi i xs)"
  using assms
proof (induction xs arbitrary: pre i bi best)
  case Nil
  then show ?case by simp
next
  case (Cons x xs)
  show ?case
  proof (cases "best < x")
    case True
    have "first_max x i (Suc i) xs < length ((pre @ [x]) @ xs) \<and>
         (\<forall>j<length ((pre @ [x]) @ xs). ((pre @ [x]) @ xs) ! j \<le> ((pre @ [x]) @ xs) ! first_max x i (Suc i) xs) \<and>
         (\<forall>j<first_max x i (Suc i) xs. ((pre @ [x]) @ xs) ! j < ((pre @ [x]) @ xs) ! first_max x i (Suc i) xs)"
    proof (rule Cons.IH)
      show "length (pre @ [x]) = Suc i" using Cons.prems by simp
      show "i < Suc i" by simp
      show "(pre @ [x]) ! i = x" using Cons.prems by (simp add: nth_append)
      show "\<forall>j<Suc i. (pre @ [x]) ! j \<le> x"
        using Cons.prems True by (auto simp: nth_append less_Suc_eq intro: less_imp_le order_trans)
      show "\<forall>j<i. (pre @ [x]) ! j < x"
        using Cons.prems True by (auto simp: nth_append intro: le_less_trans)
    qed
    then show ?thesis using True by simp
  next
    case False
    have "first_max best bi (Suc i) xs < length ((pre @ [x]) @ xs) \<and>
         (\<forall>j<length ((pre @ [x]) @ xs). ((pre @ [x]) @ xs) ! j \<le> ((pre @ [x]) @ xs) ! first_max best bi (Suc i) xs) \<and>
         (\<forall>j<first_max best bi (Suc i) xs. ((pre @ [x]) @ xs) ! j < ((pre @ [x]) @ xs) ! first_max best bi (Suc i) xs)"
    proof (rule Cons.IH)
      show "length (pre @ [x]) = Suc i" using Cons.prems by simp
      show "bi < Suc i" using Cons.prems by simp
      show "(pre @ [x]) ! bi = best" using Cons.prems by (simp add: nth_append)
      show "\<forall>j<Suc i. (pre @ [x]) ! j \<le> best"
        using Cons.prems False by (auto simp: nth_append less_Suc_eq)
      show "\<forall>j<bi. (pre @ [x]) ! j < best"
        using Cons.prems by (auto simp: nth_append)
    qed
    then show ?thesis using False by simp
  qed
qed

lemma argmax_props:
  assumes "xs \<noteq> []"
  shows "\<exists>r. argmax xs = Inr r \<and> r < length xs \<and>
             (\<forall>j<length xs. xs ! j \<le> xs ! r) \<and> (\<forall>j<r. xs ! j < xs ! r)"
proof -
  obtain x rest where xs: "xs = x # rest" using assms by (cases xs) auto
  have "first_max x 0 1 rest < length ([x] @ rest) \<and>
        (\<forall>j<length ([x] @ rest). ([x] @ rest) ! j \<le> ([x] @ rest) ! first_max x 0 1 rest) \<and>
        (\<forall>j<first_max x 0 1 rest. ([x] @ rest) ! j < ([x] @ rest) ! first_max x 0 1 rest)"
    by (rule first_max_inv) auto
  then show ?thesis by (simp add: xs argmax_def)
qed

lemma slice_in_range:
  "j \<le> length xs \<Longrightarrow> i \<le> j \<Longrightarrow>
     length (slice xs i j) = j - i \<and> (\<forall>k<j - i. slice xs i j ! k = xs ! (i + k))"
  by (simp add: slice_def)

text \<open>
  An insert-mode edit of a selection \<open>xmin \<le> xmax\<close> on a sorted time axis that is not
  longer than the signal: the candidate is the first maximum of the signal over the
  window \<open>[tmin_idx, tmax_idx)\<close>; an empty window or a maximum at \<open>tmin_idx\<close> is a no-op;
  otherwise the index is added to \<open>included\<close> and \<^verbatim>\<open>add_peaks\<close> is called with it.
\<close>

lemma on_edit_insert_ordered:
  assumes "sorted (time e)" and "xmin \<le> xmax"
    and "length (time e) \<le> length (signal (data e))"
    and "map_selection e xmin xmax = ((tmin, tmax), (pmin, pmax))"
  shows "tmin \<le> tmax \<and>
     (tmin = tmax \<longrightarrow> on_edit ct e xmin xmax False True = (Redrawn, e)) \<and>
     (tmin < tmax \<longrightarrow>
        (\<exists>newpeak. tmin \<le> newpeak \<and> newpeak < tmax \<and>
           (\<forall>j. tmin \<le> j \<and> j < tmax \<longrightarrow> signal (data e) ! j \<le> signal (data e) ! newpeak) \<and>
           (\<forall>j. tmin \<le> j \<and> j < newpeak \<longrightarrow> signal (data e) ! j < signal (data e) ! newpeak) \<and>
           on_edit ct e xmin xmax False True =
             (if newpeak = tmin then (Redrawn, e)
              else (case add_peaks ct (data e) newpeak of
                      Inl err \<Rightarrow> (Raised err, e\<lparr>included := insert newpeak (included e)\<rparr>)
                    | Inr d \<Rightarrow> (Redrawn, e\<lparr>included := insert newpeak (included e), data := d\<rparr>)))))"
proof -
  have t: "tmin = searchsorted (time e) xmin" "tmax = searchsorted (time e) xmax"
    using assms(4) by (simp_all add: map_selection_def Let_def)
  have le: "tmin \<le> tmax" unfolding t using assms(2) by (rule searchsorted_mono)
  have len: "tmax \<le> length (signal (data e))"
    using assms(3) searchsorted_le [of "time e" xmax] by (simp add: t)
  have empty: "on_edit ct e xmin xmax False True = (Redrawn, e)" if "tmin = tmax"
    using that assms(4) by (simp add: on_edit_def)
  have nonempty: "\<exists>newpeak. tmin \<le> newpeak \<and> newpeak < tmax \<and>
           (\<forall>j. tmin \<le> j \<and> j < tmax \<longrightarrow> signal (data e) ! j \<le> signal (data e) ! newpeak) \<and>
           (\<forall>j. tmin \<le> j \<and> j < newpeak \<longrightarrow> signal (data e) ! j < signal (data e) ! newpeak) \<and>
           on_edit ct e xmin xmax False True =
             (if newpeak = tmin then (Redrawn, e)
              else (case add_peaks ct (data e) newpeak of
                      Inl err \<Rightarrow> (Raised err, e\<lparr>included := insert newpeak (included e)\<rparr>)
                    | Inr d \<Rightarrow> (Redrawn, e\<lparr>included := insert newpeak (included e), data := d\<rparr>)))" if lt: "tmin < tmax"
  proof -
    let ?w = "slice (signal (data e)) tmin tmax"
    have w: "length ?w = tmax - tmin" "\<forall>k<tmax - tmin. ?w ! k = signal (data e) ! (tmin + k)"
      using slice_in_range [OF len le] by simp_all
    then have "?w \<noteq> []" using lt by auto
    from argmax_props [OF this] obtain r where r: "argmax ?w = Inr r" "r < length ?w"
      "\<forall>j<length ?w. ?w ! j \<le> ?w ! r" "\<forall>j<r. ?w ! j < ?w ! r" by blast
    have r_lt: "r < tmax - tmin" using r(2) w(1) by simp
    have max: "signal (data e) ! j \<le> signal (data e) ! (tmin + r)" if "tmin \<le> j" "j < tmax" for j
    proof -
      have "j - tmin < tmax - tmin" using that by arith
      then have "?w ! (j - tmin) \<le> ?w ! r" using r(3) w(1) by simp
      then show ?thesis using w(2) r_lt \<open>j - tmin < tmax - tmin\<close> that by simp
    qed
    have first: "signal (data e) ! j < signal (data e) ! (tmin + r)" if "tmin \<le> j" "j < tmin + r" for j
    proof -
      have jr: "j - tmin < r" using that by arith
      then have "?w ! (j - tmin) < ?w ! r" using r(4) by simp
      then show ?thesis using w(2) r_lt jr that by simp
    qed
    have res: "on_edit ct e xmin xmax False True =
             (if tmin + r = tmin then (Redrawn, e)
              else (case add_peaks ct (data e) (tmin + r) of
                      Inl err \<Rightarrow> (Raised err, e\<lparr>included := insert (tmin + r) (included e)\<rparr>)
                    | Inr d \<Rightarrow> (Redrawn, e\<lparr>included := insert (tmin + r) (included e), data := d\<rparr>)))"
      using lt assms(4) r(1) by (simp add: on_edit_def Let_def split: sum.splits)
    show ?thesis
      apply (rule exI [of _ "tmin + r"])
      using r_lt max first res by auto
  qed
  show ?thesis using le empty nonempty by blast
qed

text \<open>
  Claim C6 says of every insert-mode edit that it is a no-op when the window is empty
  (\<open>tmin_idx = tmax_idx\<close>) or the located index is \<open>tmin_idx\<close>, and an insertion of the
  maximum of the window otherwise.  The code breaks it for a selection that maps to an
  inverted window: \<open>tmin_idx\<close> and \<open>tmax_idx\<close> differ, so the guard \<^verbatim>\<open>tmin != tmax\<close> sends
  the empty slice \<^verbatim>\<open>data[8:3]\<close> to \<^verbatim>\<open>np.argmax\<close>, which raises \<^verbatim>\<open>ValueError\<close>: the edit
  is neither the no-op nor an insertion.  Here the selection \<open>(8, 3)\<close> on the example
  session.
\<close>

theorem insert_window_inverted_raises:
  "map_selection example_editor 8 3 = ((8, 3), (2, 1)) \<and>
   slice (signal (data example_editor)) 8 3 = [] \<and>
   on_edit check_troughs example_editor 8 3 False True = (Raised ValueError, example_editor)"
  by (simp add: eval_defs example_defs)

subsection \<open>Rejection and deletion\<close>

lemma map_nth_slice:
  "j \<le> length xs \<Longrightarrow> map (\<lambda>i. xs ! i) [i..<j] = take (j - i) (drop i xs)"
  by (rule nth_equalityI) auto

lemma sorted_filter_less:
  "sorted xs \<Longrightarrow> filter (\<lambda>p. p < b) xs = takeWhile (\<lambda>p. p < b) xs"
proof (induction xs)
  case Nil
  then show ?case by simp
next
  case (Cons x xs)
  show ?case
  proof (cases "x < b")
    case True
    then show ?thesis using Cons by simp
  next
    case False
    then have "filter (\<lambda>p. p < b) xs = []"
      using Cons.prems by (auto simp: filter_empty_conv)
    then show ?thesis using False by simp
  qed
qed

lemma sorted_window:
  "sorted ps \<Longrightarrow> a \<le> b \<Longrightarrow>
     take (searchsorted ps b - searchsorted ps a) (drop (searchsorted ps a) ps) =
     filter (\<lambda>p. a \<le> p \<and> p < b) ps"
proof (induction ps)
  case Nil
  then show ?case by (simp add: searchsorted_def)
next
  case (Cons x xs)
  show ?case
  proof (cases "x < a")
    case True
    then have "x < b" using Cons.prems(2) by simp
    then show ?thesis using True Cons by (simp add: searchsorted_def)
  next
    case False
    have "filter (\<lambda>p. a \<le> p \<and> p < b) (x # xs) = filter (\<lambda>p. p < b) (x # xs)"
      using False Cons.prems(1) by (intro filter_cong) auto
    also have "\<dots> = takeWhile (\<lambda>p. p < b) (x # xs)"
      using Cons.prems(1) by (rule sorted_filter_less)
    finally show ?thesis
      using False takeWhile_eq_take [of "\<lambda>p. p < b" "x # xs"]
      by (simp add: searchsorted_def)
  qed
qed

text \<open>
  Claim C7: for every reject- or delete-mode edit (\<open>insert\<close> not set) on a sorted time
  axis and sorted peaks: if the mapped range \<open>[pmin, pmax)\<close> of peak-array positions is
  empty, the edit is a no-op (a redraw, the state unchanged, no history entry).
  Otherwise the sample indices of the peaks at the positions \<open>[pmin, pmax)\<close>, which are
  the peaks within \<open>[tmin_idx, tmax_idx)\<close>, are added to \<open>rejected\<close> when \<open>reject\<close> is
  set and to \<open>deleted\<close> when it is not, and \<^verbatim>\<open>reject_peaks\<close> or \<^verbatim>\<open>delete_peaks\<close> is invoked
  with exactly these indices.
\<close>

theorem on_edit_remove:
  assumes "sorted (time e)" and "sorted (peaks (data e))"
    and "map_selection e xmin xmax = ((tmin, tmax), (pmin, pmax))"
  shows "(pmax \<le> pmin \<longrightarrow> on_edit ct e xmin xmax reject False = (Redrawn, e)) \<and>
     (pmin < pmax \<longrightarrow>
        (let sel = take (pmax - pmin) (drop pmin (peaks (data e))) in
         sel \<noteq> [] \<and> sel = filter (\<lambda>p. tmin \<le> p \<and> p < tmax) (peaks (data e)) \<and>
         on_edit ct e xmin xmax reject False =
           (Redrawn,
            if reject
            then e\<lparr>rejected := rejected e \<union> set sel, data := reject_peaks ct (data e) sel\<rparr>
            else e\<lparr>deleted := deleted e \<union> set sel, data := delete_peaks ct (data e) sel\<rparr>)))"
proof -
  have p: "pmin = searchsorted (peaks (data e)) tmin" "pmax = searchsorted (peaks (data e)) tmax"
    using assms(3) by (auto simp: map_selection_def Let_def)
  have empty: "on_edit ct e xmin xmax reject False = (Redrawn, e)" if "pmax \<le> pmin"
    using that assms(3) by (simp add: on_edit_def)
  have nonempty: "let sel = take (pmax - pmin) (drop pmin (peaks (data e))) in
         sel \<noteq> [] \<and> sel = filter (\<lambda>p. tmin \<le> p \<and> p < tmax) (peaks (data e)) \<and>
         on_edit ct e xmin xmax reject False =
           (Redrawn,
            if reject
            then e\<lparr>rejected := rejected e \<union> set sel, data := reject_peaks ct (data e) sel\<rparr>
            else e\<lparr>deleted := deleted e \<union> set sel, data := delete_peaks ct (data e) sel\<rparr>)"
    if lt: "pmin < pmax"
  proof -
    have pl: "pmax \<le> length (peaks (data e))" unfolding p by (rule searchsorted_le)
    have "\<not> tmax \<le> tmin"
      using lt searchsorted_mono [of tmax tmin "peaks (data e)"] by (auto simp: p)
    then have t: "tmin \<le> tmax" by simp
    have ne: "take (pmax - pmin) (drop pmin (peaks (data e))) \<noteq> []"
      using lt pl by simp
    have win: "take (pmax - pmin) (drop pmin (peaks (data e))) =
               filter (\<lambda>p. tmin \<le> p \<and> p < tmax) (peaks (data e))"
      unfolding p using assms(2) t by (rule sorted_window)
    have "on_edit ct e xmin xmax reject False =
           (Redrawn,
            if reject
            then e\<lparr>rejected := rejected e \<union> set (take (pmax - pmin) (drop pmin (peaks (data e)))),
                   data := reject_peaks ct (data e) (take (pmax - pmin) (drop pmin (peaks (data e))))\<rparr>
            else e\<lparr>deleted := deleted e \<union> set (take (pmax - pmin) (drop pmin (peaks (data e)))),
                   data := delete_peaks ct (data e) (take (pmax - pmin) (drop pmin (peaks (data e))))\<rparr>)"
      using lt assms(3) map_nth_slice [OF pl, of pmin]
      by (simp add: on_edit_def Let_def)
    then show ?thesis using ne win by (simp add: Let_def)
  qed
  show ?thesis using empty nonempty by blast
qed

theorem on_edit_remove_witness:
  "sorted (time example_editor) \<and> sorted (peaks (data example_editor)) \<and>
   map_selection example_editor 4.5 8.5 = ((5, 9), (1, 3)) \<and>
   on_edit check_troughs example_editor 4.5 8.5 True False =
     (Redrawn, example_editor\<lparr>rejected := {5, 8},
                data := reject_peaks check_troughs (data example_editor) [5, 8]\<rparr>)"
proof -
  have h: "sorted (time example_editor)" "sorted (peaks (data example_editor))"
    by (simp_all add: example_defs peaks_def)
  have m: "map_selection example_editor 4.5 8.5 = ((5, 9), (1, 3))"
    by (simp add: example_defs map_selection_def searchsorted_def peaks_def)
  have r: "on_edit check_troughs example_editor 4.5 8.5 True False =
     (Redrawn, example_editor\<lparr>rejected := {5, 8},
                data := reject_peaks check_troughs (data example_editor) [5, 8]\<rparr>)"
    by (simp add: eval_defs example_defs Let_def)
  show ?thesis
    using h m r on_edit_remove [OF h m, of check_troughs True] by simp
qed

subsection \<open>Undo of an insertion the editor did not make\<close>




text \<open>
  Claim C8 says that \<^verbatim>\<open>undo()\<close> reverses every top edit record according to its kind
  and then recomputes the troughs.  The code breaks it for an \<^verbatim>\<open>add_peaks\<close> record made
  before the editor was constructed: \<^verbatim>\<open>self.included.remove\<close> raises \<^verbatim>\<open>KeyError\<close> where
  the branches for rejections and deletions use \<^verbatim>\<open>difference_update\<close>, which accepts
  indices the sets do not have.  On the editor constructed after an earlier insertion
  of sample 7 the record is popped and the peak removed, and the troughs stay those
  of the peaks 2, 5, 7, 8.
\<close>

theorem undo_earlier_insert_raises:
  "second_session =
     \<lparr>data = \<lparr>signal = [0, 1, 5, 1, 0, 6, 1, 9, 4, 1], fs = None,
              history = [(''add_peaks'', Add 7)], meta_peaks = [2, 5, 7, 8],
              meta_troughs = [4, 6, 7], meta_reject = []\<rparr>,
      time = [0, 1, 2, 3, 4, 5, 6, 7, 8, 9], deleted = {}, rejected = {}, included = {}\<rparr> \<and>
   undo check_troughs second_session =
     (Raised KeyError,
      \<lparr>data = \<lparr>signal = [0, 1, 5, 1, 0, 6, 1, 9, 4, 1], fs = None,
               history = [], meta_peaks = [2, 5, 8],
               meta_troughs = [4, 6, 7], meta_reject = []\<rparr>,
       time = [0, 1, 2, 3, 4, 5, 6, 7, 8, 9], deleted = {}, rejected = {}, included = {}\<rparr>) \<and>
   check_troughs [0, 1, 5, 1, 0, 6, 1, 9, 4, 1] [2, 5, 8] = [4, 6]"
  by (simp add: eval_defs example_defs Let_def)

subsection \<open>Reversing the array operations\<close>

lemma set_setdiff1d: "set (setdiff1d a b) = set a - set b"
  by (auto simp: setdiff1d_def)

lemma sorted_setdiff1d: "sorted_wrt (<) (setdiff1d a b)"
  by (simp add: setdiff1d_def strict_sorted_iff)

lemma setdiff1d_eq: "setdiff1d a b = sorted_list_of_set (set a - set b)"
proof -
  have "setdiff1d a b = sorted_list_of_set (set (filter (\<lambda>x. x \<notin> set b) a))"
    by (simp only: setdiff1d_def sorted_list_of_set_sort_remdups)
  also have "set (filter (\<lambda>x. x \<notin> set b) a) = set a - set b" by auto
  finally show ?thesis .
qed

lemma setdiff1d_set_cong: "set a = set a' \<Longrightarrow> setdiff1d a b = setdiff1d a' b"
  by (simp add: setdiff1d_eq)

lemma strict_sorted_unique:
  "sorted_wrt (<) xs \<Longrightarrow> sorted_wrt (<) ys \<Longrightarrow> set xs = set ys \<Longrightarrow> xs = (ys :: 'a::linorder list)"
  by (simp add: strict_sorted_iff sorted_distinct_set_unique)

lemma zip_filter_fst:
  "map snd (filter (\<lambda>iv. fst iv = i) (zip (map f S) S)) = filter (\<lambda>s. f s = i) S"
  by (induction S) auto

lemma searchsorted_at:
  assumes "searchsorted (pre @ x # xs) s = length pre"
  shows "\<not> x < s"
proof -
  let ?t = "takeWhile (\<lambda>y. y < s) (pre @ x # xs)"
  have l: "length ?t = length pre" using assms by (simp only: searchsorted_def)
  then have "length ?t < length (pre @ x # xs)" by simp
  then have "\<not> (pre @ x # xs) ! length ?t < s" by (rule nth_length_takeWhile)
  then show ?thesis unfolding l by simp
qed

lemma searchsorted_beyond:
  assumes "length pre < searchsorted (pre @ x # xs) s"
  shows "x < s"
proof -
  let ?t = "takeWhile (\<lambda>y. y < s) (pre @ x # xs)"
  have l: "length pre < length ?t" using assms by (simp add: searchsorted_def)
  then have "?t ! length pre = (pre @ x # xs) ! length pre" by (rule takeWhile_nth)
  then have "x = ?t ! length pre" by simp
  then have "x \<in> set ?t" using l nth_mem by metis
  then show ?thesis by (auto dest: set_takeWhileD)
qed

lemma insert_from_sorted:
  assumes "sorted_wrt (<) (pre @ arr)" and "sorted_wrt (<) S"
    and "set S \<inter> set (pre @ arr) = {}"
  shows "sorted_wrt (<) (insert_from (length pre) arr (zip (map (searchsorted (pre @ arr)) S) S)) \<and>
         set (insert_from (length pre) arr (zip (map (searchsorted (pre @ arr)) S) S)) =
           set arr \<union> {s \<in> set S. length pre \<le> searchsorted (pre @ arr) s}"
  using assms
proof (induction arr arbitrary: pre)
  case Nil
  have "searchsorted pre s = length pre \<longleftrightarrow> length pre \<le> searchsorted pre s" for s
    using searchsorted_le [of pre s] by arith
  then have "{s \<in> set S. searchsorted pre s = length pre} = {s \<in> set S. length pre \<le> searchsorted pre s}"
    by simp
  then show ?case using Nil.prems(2) by (simp add: zip_filter_fst sorted_wrt_filter)
next
  case (Cons x xs)
  let ?f = "searchsorted (pre @ x # xs)"
  let ?A = "filter (\<lambda>s. ?f s = length pre) S"
  let ?R = "insert_from (Suc (length pre)) xs (zip (map ?f S) S)"
  have ih: "sorted_wrt (<) ?R \<and> set ?R = set xs \<union> {s \<in> set S. Suc (length pre) \<le> ?f s}"
    using Cons.IH [of "pre @ [x]"] Cons.prems by simp
  have xS: "x \<notin> set S" using Cons.prems(3) by auto
  have A_lt: "a < x" if "a \<in> set ?A" for a
  proof -
    have "\<not> x < a" using that searchsorted_at [of pre x xs a] by simp
    moreover have "a \<noteq> x" using that xS by auto
    ultimately show ?thesis by simp
  qed
  have R_gt: "x < r" if "r \<in> set ?R" for r
  proof -
    from that ih have "r \<in> set xs \<or> (r \<in> set S \<and> Suc (length pre) \<le> ?f r)" by auto
    then show ?thesis
    proof
      assume "r \<in> set xs"
      then show ?thesis using Cons.prems(1) by (auto simp: sorted_wrt_append)
    next
      assume "r \<in> set S \<and> Suc (length pre) \<le> ?f r"
      then show ?thesis using searchsorted_beyond [of pre x xs r] by simp
    qed
  qed
  have A_R: "a < r" if "a \<in> set ?A" "r \<in> set ?R" for a r
    using A_lt [OF that(1)] R_gt [OF that(2)] by (rule less_trans)
  have sA: "sorted_wrt (<) ?A" using Cons.prems(2) by (rule sorted_wrt_filter)
  have "sorted_wrt (<) (?A @ x # ?R)"
    unfolding sorted_wrt_append sorted_wrt.simps set_simps
    using ih sA A_lt R_gt A_R by blast
  moreover have "length pre \<le> ?f s \<longleftrightarrow> ?f s = length pre \<or> Suc (length pre) \<le> ?f s" for s
    by arith
  then have "set (?A @ x # ?R) = set (x # xs) \<union> {s \<in> set S. length pre \<le> ?f s}"
    using ih by auto
  ultimately show ?case by (simp add: zip_filter_fst)
qed

lemma np_insert_restores:
  assumes "sorted_wrt (<) mp" and "sorted_wrt (<) S" and "set S \<subseteq> set mp"
  shows "np_insert (setdiff1d mp S) (map (searchsorted (setdiff1d mp S)) S) S = Inr mp"
proof -
  let ?mp' = "setdiff1d mp S"
  have d: "set S \<inter> set ([] @ ?mp') = {}" by (auto simp: set_setdiff1d)
  have s: "sorted_wrt (<) ([] @ ?mp')" by (simp add: sorted_setdiff1d)
  from insert_from_sorted [OF s assms(2) d]
  have r: "sorted_wrt (<) (insert_from 0 ?mp' (zip (map (searchsorted ?mp') S) S))"
     "set (insert_from 0 ?mp' (zip (map (searchsorted ?mp') S) S)) = set ?mp' \<union> set S"
    by auto
  have "set ?mp' \<union> set S = set mp" using assms(3) by (auto simp: set_setdiff1d)
  then have "insert_from 0 ?mp' (zip (map (searchsorted ?mp') S) S) = mp"
    using r assms(1) by (intro strict_sorted_unique) auto
  moreover have "\<not> list_ex (\<lambda>i. length ?mp' < i) (map (searchsorted ?mp') S)"
    using searchsorted_le [of ?mp'] by (auto simp: list_ex_iff not_less)
  ultimately show ?thesis by (simp add: np_insert_def)
qed

lemma searchsorted_inserted:
  "searchsorted (take (searchsorted mp p) mp @ p # drop (searchsorted mp p) mp) p = searchsorted mp p"
proof -
  have t: "take (searchsorted mp p) mp = takeWhile (\<lambda>x. x < p) mp"
    using takeWhile_eq_take [of "\<lambda>x. x < p" mp] by (simp add: searchsorted_def)
  have "takeWhile (\<lambda>x. x < p) (takeWhile (\<lambda>x. x < p) mp @ p # drop (searchsorted mp p) mp) =
        takeWhile (\<lambda>x. x < p) mp"
    by (subst takeWhile_append2) (auto dest: set_takeWhileD)
  then show ?thesis unfolding t by (simp add: searchsorted_def)
qed

lemma np_delete_inserted:
  "np_delete (take (searchsorted mp p) mp @ p # drop (searchsorted mp p) mp)
     (searchsorted (take (searchsorted mp p) mp @ p # drop (searchsorted mp p) mp) p) = Inr mp"
  using searchsorted_le [of mp p]
  by (simp add: searchsorted_inserted np_delete_def min_def)

lemma sorted_dropWhile_not_less:
  "sorted mp \<Longrightarrow> x \<in> set (dropWhile (\<lambda>x. x < p) mp) \<Longrightarrow> \<not> x < (p :: 'a::linorder)"
  by (induction mp) (auto split: if_splits)

lemma sorted_inserted:
  assumes "sorted_wrt (<) mp" and "p \<notin> set mp"
  shows "sorted_wrt (<) (take (searchsorted mp p) mp @ p # drop (searchsorted mp p) mp)"
proof -
  have t: "take (searchsorted mp p) mp = takeWhile (\<lambda>x. x < p) mp"
    using takeWhile_eq_take [of "\<lambda>x. x < p" mp] by (simp add: searchsorted_def)
  have d: "drop (searchsorted mp p) mp = dropWhile (\<lambda>x. x < p) mp"
    by (simp add: searchsorted_def dropWhile_eq_drop)
  have s: "sorted mp" using assms(1) by (simp add: strict_sorted_iff)
  have lo: "x < p" if "x \<in> set (takeWhile (\<lambda>x. x < p) mp)" for x
    using that by (auto dest: set_takeWhileD)
  have hi: "p < x" if "x \<in> set (dropWhile (\<lambda>x. x < p) mp)" for x
  proof -
    have "x \<in> set mp" using that set_dropWhileD by fast
    then have "x \<noteq> p" using assms(2) by auto
    moreover have "\<not> x < p" using s that by (rule sorted_dropWhile_not_less)
    ultimately show ?thesis by simp
  qed
  have "sorted_wrt (<) (takeWhile (\<lambda>x. x < p) mp @ dropWhile (\<lambda>x. x < p) mp)"
    using assms(1) by simp
  then have "sorted_wrt (<) (takeWhile (\<lambda>x. x < p) mp)" "sorted_wrt (<) (dropWhile (\<lambda>x. x < p) mp)"
    by (simp_all add: sorted_wrt_append)
  moreover have "a < b" if "a \<in> set (takeWhile (\<lambda>x. x < p) mp)" "b \<in> set (dropWhile (\<lambda>x. x < p) mp)" for a b
    using lo [OF that(1)] hi [OF that(2)] by (rule less_trans)
  ultimately show ?thesis
    unfolding t d sorted_wrt_append sorted_wrt.simps set_simps
    using lo hi by blast
qed

subsection \<open>What undo does to a record of each kind\<close>

lemma undo_reject:
  assumes "history (data f) = h @ [(''reject_peaks'', Remove r)]"
  shows "undo ct f =
           retrough ct (f\<lparr>data := (data f)\<lparr>history := h,
                                  meta_reject := setdiff1d (meta_reject (data f)) r\<rparr>,
                          rejected := rejected f - set r\<rparr>)"
  by (simp add: undo_def relevant_def assms Let_def)

lemma undo_delete:
  assumes "history (data f) = h @ [(''delete_peaks'', Remove r)]"
    and "np_insert (meta_peaks (data f)) (map (searchsorted (meta_peaks (data f))) r) r = Inr ps"
  shows "undo ct f =
           retrough ct (f\<lparr>data := (data f)\<lparr>history := h, meta_peaks := ps\<rparr>,
                          deleted := deleted f - set r\<rparr>)"
  by (simp add: undo_def relevant_def assms Let_def)

lemma undo_add:
  assumes "history (data f) = h @ [(''add_peaks'', Add p)]"
    and "np_delete (meta_peaks (data f)) (searchsorted (meta_peaks (data f)) p) = Inr ps"
    and "p \<in> included f"
  shows "undo ct f =
           retrough ct (f\<lparr>data := (data f)\<lparr>history := h, meta_peaks := ps\<rparr>,
                          included := included f - {p}\<rparr>)"
  by (simp add: undo_def relevant_def assms Let_def)

subsection \<open>Edits followed by as many undos\<close>

text \<open>
  Claim C2 says that \<open>N\<close> successful edits followed by \<open>N\<close> calls of \<^verbatim>\<open>undo()\<close> restore
  peaks, troughs, the three category sets and the history length.  The code breaks it
  when an index is inserted, deleted and inserted again: \<open>included\<close> is a set and holds
  the index once for the two insertions.  On the example session sample 7 is inserted,
  deleted and inserted again (three successful edits, three history records); the
  first undo takes 7 out of \<open>included\<close>, the second puts the deleted peak back, and the
  third removes the peak and then raises \<^verbatim>\<open>KeyError\<close> in \<^verbatim>\<open>self.included.remove\<close>, before
  the troughs are recomputed: the peaks are 2, 5, 8 again, the troughs stay 4, 6, 7
  and were 4, 6.
\<close>

theorem reinserted_third_undo_raises:
  "reinserted =
     \<lparr>data = \<lparr>signal = [0, 1, 5, 1, 0, 6, 1, 9, 4, 1], fs = None,
              history = [(''add_peaks'', Add 7), (''delete_peaks'', Remove [7]),
                         (''add_peaks'', Add 7)],
              meta_peaks = [2, 5, 7, 8], meta_troughs = [4, 6, 7], meta_reject = []\<rparr>,
      time = [0, 1, 2, 3, 4, 5, 6, 7, 8, 9], deleted = {7}, rejected = {}, included = {7}\<rparr> \<and>
   fst (undo check_troughs reinserted) = Redrawn \<and>
   fst (undo check_troughs (undos check_troughs 1 reinserted)) = Redrawn \<and>
   undo check_troughs (undos check_troughs 2 reinserted) =
     (Raised KeyError,
      \<lparr>data = \<lparr>signal = [0, 1, 5, 1, 0, 6, 1, 9, 4, 1], fs = None, history = [],
               meta_peaks = [2, 5, 8], meta_troughs = [4, 6, 7], meta_reject = []\<rparr>,
       time = [0, 1, 2, 3, 4, 5, 6, 7, 8, 9], deleted = {}, rejected = {}, included = {}\<rparr>) \<and>
   troughs (data example_editor) = [4, 6]"
  by (simp add: reinserted_def undos_def numeral_2_eq_2 eval_defs example_defs troughs_def Let_def)

subsection \<open>The category sets\<close>








end
